theory Spec2Isabelle
  imports Complex_Main "HOL-Library.Multiset"
begin

section \<open>Data model\<close>

text \<open>
  The embedding follows \<open>LinKernighanHeuristic.cpp\<close>: the classes \<open>AlternatingWalk\<close>,
  \<open>CandidateEdges\<close> and \<open>LinKernighanHeuristic\<close>.  (\<open>LinKerninghanHeuristic.cpp\<close> is an
  earlier version with the same \<open>AlternatingWalk\<close>.)

  Vertices are the unsigned integers of the source (\<open>vertex_t\<close>); distances are unsigned
  (\<open>distance_t\<close>) and gains signed (\<open>signed_distance_t\<close>).  The widths of these types are
  declared in a header that is not part of the sources at hand; they are modelled as
  \<open>nat\<close> and \<open>int\<close>.
\<close>

type_synonym vertex = nat

text \<open>
  Undefined behaviour and exceptions of the source are values of the model:
  \<open>OutOfRange\<close> is an index outside a vector (\<open>at\<close> throws, \<open>operator[]\<close> is undefined),
  \<open>EdgeOutOfRange\<close> is such an index in the loop of \<open>AlternatingWalk::containsEdge\<close>,
  \<open>EmptyChoice\<close> is a random choice from an empty vector, \<open>InvalidArgument\<close> is the
  \<open>runtime_error\<close> of \<open>findBestTour\<close>.
\<close>

datatype error = OutOfRange | EdgeOutOfRange | EmptyChoice | InvalidArgument

subsection \<open>AlternatingWalk\<close>

text \<open>An \<open>AlternatingWalk\<close> is a \<open>std::vector\<close> of vertices.\<close>

type_synonym walk = "vertex list"

text \<open>\<open>close\<close>: copy the walk and push \<open>at(0)\<close>; \<open>at\<close> throws on the empty walk.\<close>

definition close :: "walk \<Rightarrow> error + walk" where
  "close w = (if 0 < length w then Inr (w @ [w ! 0]) else Inl OutOfRange)"

text \<open>\<open>appendAndClose\<close>: copy the walk, push the vertex, then push \<open>at(0)\<close> of the original.\<close>

definition appendAndClose :: "walk \<Rightarrow> vertex \<Rightarrow> error + walk" where
  "appendAndClose w vertex =
     (if 0 < length w then Inr ((w @ [vertex]) @ [w ! 0]) else Inl OutOfRange)"

text \<open>
  \<open>size() - 1\<close> is computed in \<open>size_t\<close>: on the empty walk it wraps around to
  \<open>2^64 - 1\<close>.  The size of a vector is itself a \<open>size_t\<close>, so this is the only wrap.
\<close>

definition size_minus_one :: "walk \<Rightarrow> nat" where
  "size_minus_one w = (if length w = 0 then 2 ^ 64 - 1 else length w - 1)"

text \<open>
  The loop of \<open>containsEdge\<close>, from index \<open>i\<close> on.  The condition reads element \<open>i\<close>
  first and element \<open>i + 1\<close> only when element \<open>i\<close> is one of the two vertices
  (short-circuit evaluation); a read outside the vector is \<open>EdgeOutOfRange\<close>.
\<close>

function containsEdge_from :: "walk \<Rightarrow> vertex \<Rightarrow> vertex \<Rightarrow> nat \<Rightarrow> error + bool" where
  "containsEdge_from w vertex1 vertex2 i =
     (if i < size_minus_one w then
        (if \<not> i < length w then Inl EdgeOutOfRange
         else if w ! i = vertex1 \<or> w ! i = vertex2 then
           (if \<not> i + 1 < length w then Inl EdgeOutOfRange
            else if (w ! i = vertex1 \<and> w ! (i + 1) = vertex2) \<or>
                    (w ! i = vertex2 \<and> w ! (i + 1) = vertex1) then Inr True
            else containsEdge_from w vertex1 vertex2 (i + 1))
         else containsEdge_from w vertex1 vertex2 (i + 1))
      else Inr False)"
  by pat_completeness auto
termination
  by (relation "measure (\<lambda>(w, vertex1, vertex2, i). length w - i)") auto

declare containsEdge_from.simps [simp del]

definition containsEdge :: "walk \<Rightarrow> vertex \<Rightarrow> vertex \<Rightarrow> error + bool" where
  "containsEdge w vertex1 vertex2 = containsEdge_from w vertex1 vertex2 0"

text \<open>The consecutive pair at index \<open>j\<close> is the unordered pair \<open>{u, v}\<close>.\<close>

definition edge_at :: "walk \<Rightarrow> vertex \<Rightarrow> vertex \<Rightarrow> nat \<Rightarrow> bool" where
  "edge_at w u v j = ((w ! j = u \<and> w ! (j + 1) = v) \<or> (w ! j = v \<and> w ! (j + 1) = u))"

subsection \<open>Collaborators that are not part of the sources at hand\<close>

text \<open>
  \<open>TsplibProblem\<close>, \<open>Tour\<close> and the \<open>\<alpha>\<close>-distance routines are declared in headers and
  implemented in files that are not available.  Their operations are parameters of the
  model, collected in one record over an arbitrary type of tours; what the development
  needs of them is stated as explicit hypotheses.

  \<^item> \<open>getDimension\<close>, \<open>dist\<close>, \<open>tourLength\<close>, \<open>exchangeGain\<close>: \<open>TsplibProblem\<close>;
  \<^item> \<open>makeTour\<close>, \<open>noTour\<close>: the constructors \<open>Tour(order)\<close> and \<open>Tour()\<close>;
  \<^item> \<open>tourDimension\<close>, \<open>predecessor\<close>, \<open>successor\<close>, \<open>getNeighbors\<close>, \<open>tourContainsEdge\<close>,
    \<open>isTourAfterExchange\<close>, \<open>exchange\<close>: the member functions of \<open>Tour\<close>;
  \<^item> \<open>alphaDistances\<close>, \<open>optimizedAlphaDistances\<close>: the tables of \<open>\<alpha>\<close>-values, read
    as \<open>alpha[v][w]\<close>.
\<close>

record 'tour collaborators =
  getDimension :: nat
  dist :: "vertex \<Rightarrow> vertex \<Rightarrow> nat"
  tourLength :: "'tour \<Rightarrow> nat"
  exchangeGain :: "walk \<Rightarrow> int"
  makeTour :: "vertex list \<Rightarrow> 'tour"
  noTour :: "'tour"
  tourDimension :: "'tour \<Rightarrow> nat"
  predecessor :: "'tour \<Rightarrow> vertex \<Rightarrow> vertex"
  successor :: "'tour \<Rightarrow> vertex \<Rightarrow> vertex"
  getNeighbors :: "'tour \<Rightarrow> vertex \<Rightarrow> vertex list"
  tourContainsEdge :: "'tour \<Rightarrow> vertex \<Rightarrow> vertex \<Rightarrow> bool"
  isTourAfterExchange :: "'tour \<Rightarrow> walk \<Rightarrow> bool"
  exchange :: "'tour \<Rightarrow> walk \<Rightarrow> 'tour"
  alphaDistances :: "vertex \<Rightarrow> vertex \<Rightarrow> nat"
  optimizedAlphaDistances :: "vertex \<Rightarrow> vertex \<Rightarrow> nat"

subsection \<open>CandidateEdges\<close>

text \<open>The table \<open>edges\<close>: one vector of vertices per vertex.\<close>

type_synonym candidate_edges = "vertex list list"

datatype candidate_type =
  ALL_NEIGHBORS | NEAREST_NEIGHBORS | ALPHA_NEAREST_NEIGHBORS | OPTIMIZED_ALPHA_NEAREST_NEIGHBORS

text \<open>
  \<open>allNeighbors\<close>: every row starts as \<open>0, ..., N - 1\<close> (\<open>std::iota\<close>); the loop then
  erases \<open>v\<close> from row \<open>v\<close> (\<open>erase\<close> of \<open>std::remove\<close>).
\<close>

definition allNeighbors :: "'tour collaborators \<Rightarrow> candidate_edges" where
  "allNeighbors problem =
     (let allVertices = [0 ..< getDimension problem];
          result = replicate (getDimension problem) allVertices
      in fold (\<lambda>v result. result[v := removeAll v (result ! v)]) allVertices result)"

text \<open>
  \<open>std::partial_sort_copy\<close> writes the \<open>min (size of source) (size of destination)\<close> smallest
  elements of the source, in ascending order of the comparison, to the front of the
  destination and leaves the rest of the destination as it is.  The standard does not fix
  the order of equivalent elements; the model sorts by insertion.
\<close>

fun insert_by :: "('a \<Rightarrow> 'a \<Rightarrow> bool) \<Rightarrow> 'a \<Rightarrow> 'a list \<Rightarrow> 'a list" where
  "insert_by lt x [] = [x]"
| "insert_by lt x (y # ys) = (if lt y x then y # insert_by lt x ys else x # y # ys)"

definition sort_by :: "('a \<Rightarrow> 'a \<Rightarrow> bool) \<Rightarrow> 'a list \<Rightarrow> 'a list" where
  "sort_by lt xs = foldr (insert_by lt) xs []"

definition partial_sort_copy :: "'a list \<Rightarrow> 'a list \<Rightarrow> ('a \<Rightarrow> 'a \<Rightarrow> bool) \<Rightarrow> 'a list" where
  "partial_sort_copy src dest lt =
     (let n = min (length src) (length dest)
      in take n (sort_by lt src) @ drop n dest)"

text \<open>
  \<open>rawNearestNeighbors\<close>: every row starts as \<open>k\<close> zeros (\<open>std::vector<vertex_t>(k)\<close>).
  For each \<open>v\<close> the set of all vertices without \<open>v\<close> is sorted into row \<open>v\<close>.  The
  \<open>std::unordered_set\<close> is iterated in an unspecified order; the model iterates it in
  ascending order.
\<close>

definition rawNearestNeighbors ::
  "nat \<Rightarrow> nat \<Rightarrow> (vertex \<Rightarrow> vertex \<Rightarrow> vertex \<Rightarrow> bool) \<Rightarrow> candidate_edges" where
  "rawNearestNeighbors dimension k distCompare =
     (let allVertices = [0 ..< dimension];
          result = replicate dimension (replicate k 0)
      in fold (\<lambda>v result.
                 result[v := partial_sort_copy (removeAll v allVertices) (result ! v) (distCompare v)])
           [0 ..< dimension] result)"

definition nearestNeighbors :: "'tour collaborators \<Rightarrow> nat \<Rightarrow> candidate_edges" where
  "nearestNeighbors problem k =
     (let distCompare = (\<lambda>v w1 w2. dist problem v w1 < dist problem v w2)
      in rawNearestNeighbors (getDimension problem) k distCompare)"

text \<open>\<open>operator<\<close> of \<open>std::tuple\<close> on pairs: lexicographic.\<close>

definition tuple_less :: "nat \<times> nat \<Rightarrow> nat \<times> nat \<Rightarrow> bool" where
  "tuple_less p q = (fst p < fst q \<or> (\<not> fst q < fst p \<and> snd p < snd q))"

definition alphaNearestNeighbors :: "'tour collaborators \<Rightarrow> nat \<Rightarrow> candidate_edges" where
  "alphaNearestNeighbors problem k =
     (let alpha = alphaDistances problem;
          distCompare = (\<lambda>v w1 w2. tuple_less (alpha v w1, dist problem v w1)
                                               (alpha v w2, dist problem v w2))
      in rawNearestNeighbors (getDimension problem) k distCompare)"

definition optimizedAlphaNearestNeighbors :: "'tour collaborators \<Rightarrow> nat \<Rightarrow> candidate_edges" where
  "optimizedAlphaNearestNeighbors problem k =
     (let alpha = optimizedAlphaDistances problem;
          distCompare = (\<lambda>v w1 w2. tuple_less (alpha v w1, dist problem v w1)
                                               (alpha v w2, dist problem v w2))
      in rawNearestNeighbors (getDimension problem) k distCompare)"

text \<open>
  \<open>create\<close> dispatches on the type.  No branch of the source throws or checks \<open>k\<close>: every
  branch returns a table, so every branch of the model is an \<open>Inr\<close>.
\<close>

definition create ::
  "'tour collaborators \<Rightarrow> candidate_type \<Rightarrow> nat \<Rightarrow> error + candidate_edges" where
  "create problem candidateEdgeType k =
     (case candidateEdgeType of
        ALL_NEIGHBORS \<Rightarrow> Inr (allNeighbors problem)
      | NEAREST_NEIGHBORS \<Rightarrow> Inr (nearestNeighbors problem k)
      | ALPHA_NEAREST_NEIGHBORS \<Rightarrow> Inr (alphaNearestNeighbors problem k)
      | OPTIMIZED_ALPHA_NEAREST_NEIGHBORS \<Rightarrow> Inr (optimizedAlphaNearestNeighbors problem k))"

subsection \<open>Sequencing of fallible steps\<close>

text \<open>A step that fails ends the computation with its error.\<close>

definition bindE :: "error + 'a \<Rightarrow> ('a \<Rightarrow> error + 'b) \<Rightarrow> error + 'b" where
  "bindE m f = (case m of Inl e \<Rightarrow> Inl e | Inr x \<Rightarrow> f x)"

text \<open>\<open>operator[]\<close> on a vector: undefined outside the vector.\<close>

definition nth_checked :: "'a list \<Rightarrow> nat \<Rightarrow> error + 'a" where
  "nth_checked xs i = (if i < length xs then Inr (xs ! i) else Inl OutOfRange)"

text \<open>
  A loop \<open>for (x : xs) if (p x) result.push_back(x)\<close> whose condition may fail: the
  elements are tested in order and the first failure ends the loop.
\<close>

fun filterE :: "('a \<Rightarrow> error + bool) \<Rightarrow> 'a list \<Rightarrow> error + 'a list" where
  "filterE p [] = Inr []"
| "filterE p (x # xs) =
     bindE (p x) (\<lambda>b. bindE (filterE p xs) (\<lambda>ys. Inr (if b then x # ys else ys)))"

subsection \<open>LinKernighanHeuristic: improveTour\<close>

text \<open>
  Modelled from the spec: the members \<open>backtrackingDepth\<close> and \<open>infeasibilityDepth\<close> are
  declared in the header of the class, which is missing.  The specification fixes them as
  \<open>p1 = 5\<close> and \<open>p2 = 2\<close>; these are also the values of the constants of the earlier
  free function \<open>linKerninghanHeuristic\<close>.
\<close>

definition backtrackingDepth :: nat where
  "backtrackingDepth = 5"

definition infeasibilityDepth :: nat where
  "infeasibilityDepth = 2"

text \<open>The local variables of \<open>improveTour\<close>; \<open>pos\<close> is the variable \<open>i\<close>.\<close>

record 'tour search_state =
  currentTour :: "'tour"
  vertexChoices :: "vertex list list"
  currentWalk :: walk
  bestAlternatingWalk :: walk
  highestGain :: int
  pos :: nat

text \<open>What one pass through the body of the inner loop does to the control flow.\<close>

datatype 'tour round_end =
  Break "'tour"               \<comment> \<open>\<open>break\<close>, with \<open>currentTour\<close> after the exchange\<close>
| Return "'tour"              \<comment> \<open>\<open>return currentTour\<close>\<close>

datatype 'tour control =
  Next "'tour search_state"   \<comment> \<open>\<open>continue\<close>, or the end of the body\<close>
| End "'tour round_end"       \<comment> \<open>the inner loop is left\<close>

text \<open>The start of a round: \<open>X_0\<close> is \<open>0, ..., N - 1\<close>, the walks are empty.\<close>

definition round_start :: "'tour collaborators \<Rightarrow> 'tour \<Rightarrow> 'tour search_state" where
  "round_start problem tour =
     \<lparr> currentTour = tour, vertexChoices = [[0 ..< getDimension problem]], currentWalk = [],
       bestAlternatingWalk = [], highestGain = 0, pos = 0 \<rparr>"

text \<open>
  The closure is scored at odd \<open>i \<ge> 3\<close>: the result is the pair
  \<open>(bestAlternatingWalk, highestGain)\<close> after the \<open>if\<close>.  \<open>isTourAfterExchange\<close> is only
  called when the gain is higher (short-circuit evaluation).
\<close>

definition score_closure ::
  "'tour collaborators \<Rightarrow> 'tour \<Rightarrow> walk \<Rightarrow> walk \<Rightarrow> int \<Rightarrow> nat \<Rightarrow> error + walk \<times> int" where
  "score_closure problem tour walk best gainSoFar i =
     (if i mod 2 = 1 \<and> i \<ge> 3 then
        bindE (close walk) (\<lambda>closedWalk.
          let gain = exchangeGain problem closedWalk
          in if gain > gainSoFar \<and> isTourAfterExchange problem tour closedWalk
             then Inr (closedWalk, gain) else Inr (best, gainSoFar))
      else Inr (best, gainSoFar))"

text \<open>The in-edges at odd \<open>i\<close>: the loop over \<open>candidateEdges[xi]\<close>.\<close>

definition in_edge_choices ::
  "'tour collaborators \<Rightarrow> candidate_edges \<Rightarrow> 'tour \<Rightarrow> walk \<Rightarrow> int \<Rightarrow> vertex \<Rightarrow> error + vertex list"
  where
  "in_edge_choices problem candidateEdges tour walk gainSoFar xi =
     (let currentGain = exchangeGain problem walk;
          xiPredecessor = predecessor problem tour xi;
          xiSuccessor = successor problem tour xi
      in bindE (nth_checked candidateEdges xi) (\<lambda>row.
           bindE (nth_checked walk 0) (\<lambda>x0.
             filterE (\<lambda>x.
                 if x \<noteq> x0 \<and> x \<noteq> xiPredecessor \<and> x \<noteq> xiSuccessor then
                   bindE (containsEdge walk xi x) (\<lambda>inWalk.
                     Inr (\<not> inWalk \<and> currentGain - int (dist problem xi x) > gainSoFar))
                 else Inr False)
               row)))"

text \<open>
  The out-edges at even \<open>i\<close>: \<open>currentTour.getNeighbors(xi)\<close> is filtered in one of
  three ways, by the position and by whether there is a best tour.
\<close>

definition out_edge_choices ::
  "'tour collaborators \<Rightarrow> 'tour \<Rightarrow> 'tour \<Rightarrow> walk \<Rightarrow> nat \<Rightarrow> vertex \<Rightarrow> error + vertex list"
  where
  "out_edge_choices problem bestTour tour walk i xi =
     bindE (nth_checked walk 0) (\<lambda>x0.
       if i = 0 \<and> tourDimension problem bestTour \<noteq> 0 then
         (let x0Predecessor = predecessor problem bestTour x0;
              x0Successor = successor problem bestTour x0
          in Inr (filter (\<lambda>neighbor. neighbor \<noteq> x0 \<and> neighbor \<noteq> x0Predecessor \<and>
                                      neighbor \<noteq> x0Successor)
                    (getNeighbors problem tour xi)))
       else if i \<le> infeasibilityDepth then
         filterE (\<lambda>neighbor.
             if neighbor \<noteq> x0 then
               bindE (containsEdge walk xi neighbor) (\<lambda>inWalk. Inr (\<not> inWalk))
             else Inr False)
           (getNeighbors problem tour xi)
       else
         filterE (\<lambda>neighbor.
             if neighbor \<noteq> x0 then
               bindE (containsEdge walk xi neighbor) (\<lambda>inWalk.
                 if \<not> inWalk then
                   bindE (nth_checked walk 1) (\<lambda>x1.
                     if neighbor \<noteq> x1 then
                       bindE (appendAndClose walk neighbor) (\<lambda>closedWalk.
                         Inr (isTourAfterExchange problem tour closedWalk))
                     else Inr False)
                 else Inr False)
             else Inr False)
           (getNeighbors problem tour xi))"

text \<open>
  One pass through the body of the inner \<open>while (true)\<close>.  The erasures of the
  backtracking step keep the first \<open>i + 1\<close> sets and the first \<open>i\<close> walk vertices; an
  iterator behind the end of the walk is \<open>OutOfRange\<close>.  Extending the walk pops the
  last vertex of \<open>X_i\<close>, appends an empty set to \<open>vertexChoices\<close> and pushes the chosen
  vertices to \<open>vertexChoices[i + 1]\<close>, which exists as \<open>vertexChoices[i]\<close> does.
\<close>

definition improve_step ::
  "'tour collaborators \<Rightarrow> candidate_edges \<Rightarrow> 'tour \<Rightarrow> 'tour search_state \<Rightarrow> error + 'tour control"
  where
  "improve_step problem candidateEdges bestTour s =
     (let i = pos s in
      bindE (nth_checked (vertexChoices s) i) (\<lambda>Xi.
        if Xi = [] then
          (if highestGain s > 0 then
             Inr (End (Break (exchange problem (currentTour s) (bestAlternatingWalk s))))
           else if i = 0 then Inr (End (Return (currentTour s)))
           else
             (let i' = min (i - 1) backtrackingDepth
              in if i' \<le> length (currentWalk s) then
                   Inr (Next (s\<lparr> pos := i',
                                 vertexChoices := take (i' + 1) (vertexChoices s),
                                 currentWalk := take i' (currentWalk s) \<rparr>))
                 else Inl OutOfRange))
        else
          (let walk = currentWalk s @ [last Xi];
               choices = (vertexChoices s)[i := butlast Xi] @ [[]]
           in bindE (score_closure problem (currentTour s) walk
                       (bestAlternatingWalk s) (highestGain s) i) (\<lambda>(best, gain).
                bindE (nth_checked walk i) (\<lambda>xi.
                  bindE (if i mod 2 = 1
                         then in_edge_choices problem candidateEdges (currentTour s) walk gain xi
                         else out_edge_choices problem bestTour (currentTour s) walk i xi)
                    (\<lambda>Xnext.
                      Inr (Next \<lparr> currentTour = currentTour s,
                                  vertexChoices = choices[i + 1 := choices ! (i + 1) @ Xnext],
                                  currentWalk = walk,
                                  bestAlternatingWalk = best,
                                  highestGain = gain,
                                  pos = i + 1 \<rparr>)))))))"

text \<open>
  The inner loop.  It may run forever as far as its definition goes: not returning is
  the value \<open>None\<close>.
\<close>

partial_function (option) inner_loop ::
  "'tour collaborators \<Rightarrow> candidate_edges \<Rightarrow> 'tour \<Rightarrow> 'tour search_state
     \<Rightarrow> (error + 'tour round_end) option"
  where
  "inner_loop problem candidateEdges bestTour s =
     (case improve_step problem candidateEdges bestTour s of
        Inl e \<Rightarrow> Some (Inl e)
      | Inr (Next s') \<Rightarrow> inner_loop problem candidateEdges bestTour s'
      | Inr (End r) \<Rightarrow> Some (Inr r))"

text \<open>The outer loop: one round after the other, until a round returns.\<close>

partial_function (option) improve_rounds ::
  "'tour collaborators \<Rightarrow> candidate_edges \<Rightarrow> 'tour \<Rightarrow> 'tour \<Rightarrow> (error + 'tour) option"
  where
  "improve_rounds problem candidateEdges bestTour tour =
     Option.bind (inner_loop problem candidateEdges bestTour (round_start problem tour))
       (\<lambda>r. case r of
          Inl e \<Rightarrow> Some (Inl e)
        | Inr (Break tour') \<Rightarrow> improve_rounds problem candidateEdges bestTour tour'
        | Inr (Return tour') \<Rightarrow> Some (Inr tour'))"

declare inner_loop.simps [code]
declare improve_rounds.simps [code]

definition improveTour ::
  "'tour collaborators \<Rightarrow> candidate_edges \<Rightarrow> 'tour \<Rightarrow> 'tour \<Rightarrow> (error + 'tour) option"
  where
  "improveTour problem candidateEdges bestTour startTour =
     improve_rounds problem candidateEdges bestTour startTour"


subsection \<open>LinKernighanHeuristic: generateRandomTour\<close>

text \<open>
  \<open>chooseRandomElement\<close> draws from a fresh \<open>std::random_device\<close> at every call.  The
  device is an input of the model: \<open>device n\<close> is the value that decides the \<open>n\<close>-th choice
  of a run, and the number of choices made so far is threaded through the run.  The
  distribution turns the value into an index between \<open>0\<close> and \<open>size - 1\<close>: every such
  index is the outcome for some value.  On an empty vector \<open>size() - 1\<close> wraps around and
  no index is inside the vector: \<open>EmptyChoice\<close>.
\<close>

type_synonym random_device = "nat \<Rightarrow> nat"

definition chooseRandomElement ::
  "random_device \<Rightarrow> nat \<Rightarrow> vertex list \<Rightarrow> error + vertex \<times> nat" where
  "chooseRandomElement device drawn elements =
     (if elements = [] then Inl EmptyChoice
      else Inr (elements ! (device drawn mod length elements), drawn + 1))"

text \<open>
  The body of the loop of \<open>generateRandomTour\<close> up to the choice of the next vertex:
  the two categories are filled by one loop over \<open>candidateEdges[currentVertex]\<close>.
\<close>

definition next_vertex ::
  "'tour collaborators \<Rightarrow> candidate_edges \<Rightarrow> 'tour \<Rightarrow> random_device \<Rightarrow> nat \<Rightarrow> vertex
     \<Rightarrow> vertex list \<Rightarrow> error + vertex \<times> nat"
  where
  "next_vertex problem candidateEdges bestTour device drawn currentVertex remainingVertices =
     bindE (nth_checked candidateEdges currentVertex) (\<lambda>row.
       let candidatesInBestTour =
             filter (\<lambda>otherVertex. otherVertex \<in> set remainingVertices \<and>
                       tourDimension problem bestTour \<noteq> 0 \<and>
                       tourContainsEdge problem bestTour currentVertex otherVertex) row;
           candidates = filter (\<lambda>otherVertex. otherVertex \<in> set remainingVertices) row
       in if candidatesInBestTour \<noteq> [] then chooseRandomElement device drawn candidatesInBestTour
          else if candidates \<noteq> [] then chooseRandomElement device drawn candidates
          else chooseRandomElement device drawn remainingVertices)"

function generate_loop ::
  "'tour collaborators \<Rightarrow> candidate_edges \<Rightarrow> 'tour \<Rightarrow> random_device \<Rightarrow> nat \<Rightarrow> vertex
     \<Rightarrow> vertex list \<Rightarrow> vertex list \<Rightarrow> error + vertex list \<times> nat"
  where
  "generate_loop problem candidateEdges bestTour device drawn currentVertex remainingVertices
       tourOrder =
     (if remainingVertices = [] then Inr (tourOrder, drawn)
      else
        (case next_vertex problem candidateEdges bestTour device drawn currentVertex
                remainingVertices of
           Inl e \<Rightarrow> Inl e
         | Inr (v, drawn') \<Rightarrow>
             generate_loop problem candidateEdges bestTour device drawn' v
               (removeAll v remainingVertices) (tourOrder @ [v])))"
  by pat_completeness auto
termination
proof (relation "measure (\<lambda>(problem, candidateEdges, bestTour, device, drawn, currentVertex,
                            remainingVertices, tourOrder). length remainingVertices)")
  show "wf (measure (\<lambda>(problem :: 'a collaborators, candidateEdges :: candidate_edges,
                       bestTour :: 'a, device :: random_device, drawn :: nat,
                       currentVertex :: vertex, remainingVertices :: vertex list,
                       tourOrder :: vertex list). length remainingVertices))"
    by simp
next
  fix problem :: "'a collaborators" and candidateEdges :: candidate_edges and bestTour :: 'a
    and device :: random_device and drawn currentVertex :: nat
    and remainingVertices tourOrder :: "vertex list" and x2 :: "vertex \<times> nat" and v drawn' :: nat
  assume nonempty: "remainingVertices \<noteq> []"
    and pick: "next_vertex problem candidateEdges bestTour device drawn currentVertex
                 remainingVertices = Inr x2"
    and x2: "(v, drawn') = x2"
  have chosen: "chooseRandomElement device drawn elements = Inr (v, drawn') \<Longrightarrow> v \<in> set elements"
    for elements
    by (auto simp: chooseRandomElement_def split: if_splits)
  have "v \<in> set remainingVertices"
    using pick x2 [symmetric]
    by (auto simp: next_vertex_def bindE_def nth_checked_def Let_def
          split: if_splits dest!: chosen)
  then have "length (removeAll v remainingVertices) < length remainingVertices"
    by (rule length_removeAll_less)
  then show "((problem, candidateEdges, bestTour, device, drawn', v,
               removeAll v remainingVertices, tourOrder @ [v]),
              (problem, candidateEdges, bestTour, device, drawn, currentVertex,
               remainingVertices, tourOrder))
             \<in> measure (\<lambda>(problem, candidateEdges, bestTour, device, drawn, currentVertex,
                            remainingVertices, tourOrder). length remainingVertices)"
    by simp
qed

declare generate_loop.simps [simp del]

text \<open>
  \<open>generateRandomTour\<close>: the first vertex is chosen among all vertices and erased at the
  index that is its value; then the loop runs; the order becomes a \<open>Tour\<close>.
\<close>

definition generateRandomTour ::
  "'tour collaborators \<Rightarrow> candidate_edges \<Rightarrow> 'tour \<Rightarrow> random_device \<Rightarrow> nat
     \<Rightarrow> error + 'tour \<times> nat"
  where
  "generateRandomTour problem candidateEdges bestTour device drawn =
     (let remainingVertices = [0 ..< getDimension problem]
      in bindE (chooseRandomElement device drawn remainingVertices) (\<lambda>(currentVertex, drawn).
           bindE (generate_loop problem candidateEdges bestTour device drawn currentVertex
                    (take currentVertex remainingVertices @
                     drop (currentVertex + 1) remainingVertices)
                    [currentVertex])
             (\<lambda>(tourOrder, drawn). Inr (makeTour problem tourOrder, drawn))))"

subsection \<open>LinKernighanHeuristic: findBestTour\<close>

text \<open>
  The member \<open>currentBestTour\<close> and the local variables of \<open>findBestTour\<close> that live across
  trials, together with the number of draws made.
\<close>

record 'tour trial_state =
  currentBestTour :: "'tour"
  currentBestLength :: nat
  trialCount :: nat
  drawn :: nat

text \<open>
  The bound of the early stop is computed in \<open>double\<close>; the model computes it in the
  real numbers.
\<close>

definition below_threshold :: "nat \<Rightarrow> real \<Rightarrow> nat \<Rightarrow> bool" where
  "below_threshold len acceptableError optimumTourLength =
     (real len < (1 + acceptableError) * real optimumTourLength)"

text \<open>
  The loop \<open>while (trialCount++ < numberOfTrials)\<close>: the counter is incremented by the
  test, also when the test fails.  A trial whose \<open>improveTour\<close> does not return does not
  return either.
\<close>

function trial_loop ::
  "'tour collaborators \<Rightarrow> candidate_edges \<Rightarrow> random_device \<Rightarrow> nat \<Rightarrow> nat \<Rightarrow> real
     \<Rightarrow> 'tour trial_state \<Rightarrow> (error + 'tour trial_state) option"
  where
  "trial_loop problem candidateEdges device numberOfTrials optimumTourLength acceptableError st =
     (if trialCount st < numberOfTrials then
        (case generateRandomTour problem candidateEdges (currentBestTour st) device (drawn st) of
           Inl e \<Rightarrow> Some (Inl e)
         | Inr (startTour, drawn') \<Rightarrow>
             (case improveTour problem candidateEdges (currentBestTour st) startTour of
                None \<Rightarrow> None
              | Some (Inl e) \<Rightarrow> Some (Inl e)
              | Some (Inr improved) \<Rightarrow>
                  (let st' =
                     (if tourLength problem improved < currentBestLength st
                      then \<lparr> currentBestTour = improved,
                             currentBestLength = tourLength problem improved,
                             trialCount = trialCount st + 1, drawn = drawn' \<rparr>
                      else \<lparr> currentBestTour = currentBestTour st,
                             currentBestLength = currentBestLength st,
                             trialCount = trialCount st + 1, drawn = drawn' \<rparr>)
                   in if below_threshold (tourLength problem (currentBestTour st'))
                           acceptableError optimumTourLength
                      then Some (Inr st')
                      else trial_loop problem candidateEdges device numberOfTrials
                             optimumTourLength acceptableError st')))
      else Some (Inr (st\<lparr> trialCount := trialCount st + 1 \<rparr>)))"
  by pat_completeness auto
termination
  by (relation "measure (\<lambda>(problem, candidateEdges, device, numberOfTrials, optimumTourLength,
                            acceptableError, st). numberOfTrials - trialCount st)")
     (auto split: if_splits)

declare trial_loop.simps [simp del]

text \<open>
  \<open>findBestTour\<close>, as the state in which it leaves the loop; the tour returned is the
  member \<open>currentBestTour\<close> of that state.  The solver enters with the member
  \<open>currentBestTour\<close> as it is (\<open>bestTour\<close>; the default \<open>Tour()\<close> of a new solver).
  \<open>distanceMax\<close> is \<open>std::numeric_limits<distance_t>::max()\<close>, a parameter because the
  width of \<open>distance_t\<close> is declared in a missing header.
\<close>

definition findBestTour_state ::
  "'tour collaborators \<Rightarrow> candidate_edges \<Rightarrow> 'tour \<Rightarrow> random_device \<Rightarrow> nat \<Rightarrow> nat \<Rightarrow> nat
     \<Rightarrow> real \<Rightarrow> (error + 'tour trial_state) option"
  where
  "findBestTour_state problem candidateEdges bestTour device distanceMax numberOfTrials
       optimumTourLength acceptableError =
     (if numberOfTrials < 1 then Some (Inl InvalidArgument)
      else trial_loop problem candidateEdges device numberOfTrials optimumTourLength
             acceptableError
             \<lparr> currentBestTour = bestTour, currentBestLength = distanceMax,
               trialCount = 0, drawn = 0 \<rparr>)"

definition findBestTour ::
  "'tour collaborators \<Rightarrow> candidate_edges \<Rightarrow> 'tour \<Rightarrow> random_device \<Rightarrow> nat \<Rightarrow> nat \<Rightarrow> nat
     \<Rightarrow> real \<Rightarrow> (error + 'tour) option"
  where
  "findBestTour problem candidateEdges bestTour device distanceMax numberOfTrials
       optimumTourLength acceptableError =
     map_option (map_sum id currentBestTour)
       (findBestTour_state problem candidateEdges bestTour device distanceMax numberOfTrials
          optimumTourLength acceptableError)"

subsection \<open>A tour as the list of its vertices\<close>

text \<open>
  Modelled from the spec: the class \<open>Tour\<close> and the functions \<open>length\<close> and \<open>exchangeGain\<close>
  of \<open>TsplibProblem\<close> are missing from the sources at hand.  The specification describes a
  tour as a Hamiltonian cycle with the two neighbours of a vertex, a predecessor and a
  successor in a consistent orientation, a test for an edge, the exchange of the edges of a
  closed alternating walk (the edges at even positions are removed, those at odd positions
  are added) and the test that the exchange yields a Hamiltonian cycle again; the gain is
  the sum of the distances of the removed edges minus that of the added edges.  Here a tour
  is the list of its vertices in cyclic order.  This model instantiates the parameters where
  a concrete run is evaluated.
\<close>

type_synonym list_tour = "vertex list"

text \<open>
  Modelled from the spec: \<open>successor\<close>, \<open>predecessor\<close>, \<open>getNeighbors\<close> and \<open>containsEdge\<close>
  of the missing class \<open>Tour\<close>.  The successor of a vertex is the next vertex of the
  list, cyclically; the neighbours are the predecessor and the successor, in this order.
\<close>

fun index_of :: "vertex \<Rightarrow> vertex list \<Rightarrow> nat" where
  "index_of v [] = 0"
| "index_of v (x # xs) = (if x = v then 0 else Suc (index_of v xs))"

definition list_successor :: "list_tour \<Rightarrow> vertex \<Rightarrow> vertex" where
  "list_successor t v = (if t = [] then v else t ! ((index_of v t + 1) mod length t))"

definition list_predecessor :: "list_tour \<Rightarrow> vertex \<Rightarrow> vertex" where
  "list_predecessor t v =
     (if t = [] then v else t ! ((index_of v t + length t - 1) mod length t))"

definition list_getNeighbors :: "list_tour \<Rightarrow> vertex \<Rightarrow> vertex list" where
  "list_getNeighbors t v = (if t = [] then [] else [list_predecessor t v, list_successor t v])"

definition list_containsEdge :: "list_tour \<Rightarrow> vertex \<Rightarrow> vertex \<Rightarrow> bool" where
  "list_containsEdge t u v = (u \<in> set t \<and> (v = list_predecessor t u \<or> v = list_successor t u))"

text \<open>
  Modelled from the spec: \<open>TsplibProblem::length\<close> is missing.  The length of a tour is the
  sum of the distances of the edges of the cycle, each from a vertex to its successor.
\<close>

definition cycle_edges :: "list_tour \<Rightarrow> (vertex \<times> vertex) list" where
  "cycle_edges t = zip t (rotate1 t)"

definition list_length :: "(vertex \<Rightarrow> vertex \<Rightarrow> nat) \<Rightarrow> list_tour \<Rightarrow> nat" where
  "list_length d t = sum_list (map (\<lambda>(u, v). d u v) (cycle_edges t))"

text \<open>
  Modelled from the spec: \<open>TsplibProblem::exchangeGain\<close> is missing.  The gain of a walk,
  open or closed, is the sum of the distances of its edges at even positions (to remove)
  minus the sum of the distances of its edges at odd positions (to add).
\<close>

fun removed_edges :: "walk \<Rightarrow> (vertex \<times> vertex) list" where
  "removed_edges (x # y # z # w) = (x, y) # removed_edges (z # w)"
| "removed_edges [x, y] = [(x, y)]"
| "removed_edges w = []"

definition added_edges :: "walk \<Rightarrow> (vertex \<times> vertex) list" where
  "added_edges w = removed_edges (tl w)"

definition list_exchangeGain :: "(vertex \<Rightarrow> vertex \<Rightarrow> nat) \<Rightarrow> walk \<Rightarrow> int" where
  "list_exchangeGain d w =
     sum_list (map (\<lambda>(u, v). int (d u v)) (removed_edges w)) -
     sum_list (map (\<lambda>(u, v). int (d u v)) (added_edges w))"

text \<open>An edge without its direction.\<close>

definition undirected :: "vertex \<times> vertex \<Rightarrow> vertex \<times> vertex" where
  "undirected e = (min (fst e) (snd e), max (fst e) (snd e))"

text \<open>
  Modelled from the spec: \<open>Tour::exchange\<close> is missing.  The edges after the exchange are
  those of the tour without the removed edges, with the added edges; the tour after the
  exchange is the cycle through these edges, followed from the first vertex of the tour.
\<close>

definition edges_after :: "list_tour \<Rightarrow> walk \<Rightarrow> (vertex \<times> vertex) list" where
  "edges_after t w =
     fold remove1 (map undirected (removed_edges w)) (map undirected (cycle_edges t)) @
     map undirected (added_edges w)"

text \<open>
  Following the edges from a vertex, each edge once: the vertices in the order in which
  they are visited, at most \<open>n\<close> of them.
\<close>

fun follow :: "nat \<Rightarrow> (vertex \<times> vertex) list \<Rightarrow> vertex \<Rightarrow> vertex list" where
  "follow 0 es v = []"
| "follow (Suc n) es v =
     v # (case find (\<lambda>e. fst e = v \<or> snd e = v) es of
            None \<Rightarrow> []
          | Some e \<Rightarrow> follow n (remove1 e es) (if fst e = v then snd e else fst e))"

definition list_exchange :: "list_tour \<Rightarrow> walk \<Rightarrow> list_tour" where
  "list_exchange t w = (if t = [] then [] else follow (length t) (edges_after t w) (t ! 0))"

text \<open>
  Modelled from the spec: \<open>Tour::isTourAfterExchange\<close> is missing.  The exchange yields a
  tour when the removed edges are edges of the tour and the edges after the exchange are
  the edges of one cycle through all vertices of the tour, each vertex once.
\<close>

definition list_isTourAfterExchange :: "list_tour \<Rightarrow> walk \<Rightarrow> bool" where
  "list_isTourAfterExchange t w =
     (mset (map undirected (removed_edges w)) \<subseteq># mset (map undirected (cycle_edges t)) \<and>
      distinct (list_exchange t w) \<and>
      set (list_exchange t w) = set t \<and>
      mset (map undirected (cycle_edges (list_exchange t w))) = mset (edges_after t w))"

text \<open>
  The collaborators of a problem with \<open>n\<close> vertices and distance \<open>d\<close>, over list tours.
  The \<open>\<alpha>\<close>-values, whose computation is missing, are all 0 here: the \<open>\<alpha>\<close>-based
  strategies then order the candidates by distance.
\<close>

definition list_problem :: "nat \<Rightarrow> (vertex \<Rightarrow> vertex \<Rightarrow> nat) \<Rightarrow> list_tour collaborators" where
  "list_problem n d =
     \<lparr> getDimension = n, dist = d, tourLength = list_length d,
       exchangeGain = list_exchangeGain d,
       makeTour = (\<lambda>order. order), noTour = [], tourDimension = length,
       predecessor = list_predecessor, successor = list_successor,
       getNeighbors = list_getNeighbors, tourContainsEdge = list_containsEdge,
       isTourAfterExchange = list_isTourAfterExchange, exchange = list_exchange,
       alphaDistances = (\<lambda>u v. 0), optimizedAlphaDistances = (\<lambda>u v. 0) \<rparr>"



subsection \<open>What the search needs of the missing collaborators\<close>




subsection \<open>The state of a round: invariants and measures\<close>

text \<open>The edges of a walk, without direction, in the order of the walk.\<close>

definition walk_edges :: "walk \<Rightarrow> (vertex \<times> vertex) list" where
  "walk_edges w = map undirected (zip w (tl w))"






subsection \<open>Instances\<close>

text \<open>Three points on a line at \<open>0, 1, 4\<close>; four points on a line at \<open>0, 1, 2, 3\<close>.\<close>

definition line3 :: "list_tour collaborators" where
  "line3 = list_problem 3 (\<lambda>u v. if u < v then v * v - u * u else u * u - v * v)"

definition line4 :: "list_tour collaborators" where
  "line4 = list_problem 4 (\<lambda>u v. if u < v then v - u else u - v)"

text \<open>Three and four points at distance one from each other.\<close>

definition unit3 :: "list_tour collaborators" where
  "unit3 = list_problem 3 (\<lambda>u v. if u = v then 0 else 1)"

definition unit4 :: "list_tour collaborators" where
  "unit4 = list_problem 4 (\<lambda>u v. if u = v then 0 else 1)"


text \<open>A problem without vertices.\<close>

definition empty0 :: "list_tour collaborators" where
  "empty0 = list_problem 0 (\<lambda>u v. 0)"

text \<open>Two random devices: one always yields 0, the other yields 1 at its second draw only.\<close>

definition device_zero :: random_device where
  "device_zero n = 0"

definition device_other :: random_device where
  "device_other n = (if n = 1 then 1 else 0)"

text \<open>A third device: it yields 0 at its first four draws and 1 from then on.\<close>

definition device_late :: random_device where
  "device_late n = (if n < 4 then 0 else 1)"

section \<open>AlternatingWalk: properties\<close>

lemma close_nonempty: "w \<noteq> [] \<Longrightarrow> close w = Inr (w @ [hd w])"
  by (cases w) (simp_all add: close_def)

text \<open>
  Claim C8.  For every nonempty walk \<open>w\<close> with first element \<open>x0\<close>, closing the closed
  walk succeeds and gives the closed walk with \<open>x0\<close> pushed once more.
\<close>

theorem close_close:
  assumes "w \<noteq> []"
  shows "\<exists>c. close w = Inr c \<and> close c = Inr (c @ [w ! 0])"
proof -
  from assms obtain x xs where w: "w = x # xs" by (cases w) auto
  have "close w = Inr (w @ [x])" by (simp add: close_def w)
  moreover have "close (w @ [x]) = Inr ((w @ [x]) @ [x])" by (simp add: close_def w)
  ultimately show ?thesis by (simp add: w)
qed

theorem close_close_witness:
  "[2, 0, 1] \<noteq> ([] :: walk) \<and>
   (\<exists>c. close [2, 0, 1] = Inr c \<and> close c = Inr (c @ [[2, 0, 1] ! 0]))"
  using close_close [of "[2, 0, 1]"] by simp

lemma containsEdge_from_stop:
  "w \<noteq> [] \<Longrightarrow> \<not> i + 1 < length w \<Longrightarrow> containsEdge_from w u v i = Inr False"
  by (subst containsEdge_from.simps) (auto simp: size_minus_one_def)

lemma containsEdge_from_step:
  "i + 1 < length w \<Longrightarrow>
   containsEdge_from w u v i =
     (if edge_at w u v i then Inr True else containsEdge_from w u v (i + 1))"
  by (subst containsEdge_from.simps) (auto simp: size_minus_one_def edge_at_def)

lemma containsEdge_from_correct:
  "w \<noteq> [] \<Longrightarrow> n = length w - i \<Longrightarrow>
   containsEdge_from w u v i = Inr (\<exists>j. i \<le> j \<and> j + 1 < length w \<and> edge_at w u v j)"
proof (induction n arbitrary: i)
  case 0
  then show ?case by (simp add: containsEdge_from_stop)
next
  case (Suc n)
  show ?case
  proof (cases "i + 1 < length w")
    case False
    then show ?thesis using Suc.prems by (simp add: containsEdge_from_stop)
  next
    case True
    have ih: "containsEdge_from w u v (i + 1) =
        Inr (\<exists>j. i + 1 \<le> j \<and> j + 1 < length w \<and> edge_at w u v j)"
      using Suc.IH [of "i + 1"] Suc.prems by simp
    have split: "(\<exists>j. i \<le> j \<and> j + 1 < length w \<and> edge_at w u v j) \<longleftrightarrow>
        edge_at w u v i \<or> (\<exists>j. i + 1 \<le> j \<and> j + 1 < length w \<and> edge_at w u v j)"
      (is "?L \<longleftrightarrow> ?R")
    proof
      assume ?L
      then obtain j where j: "i \<le> j" "j + 1 < length w" "edge_at w u v j" by blast
      show ?R
      proof (cases "j = i")
        case True
        then show ?thesis using j by simp
      next
        case False
        then have "i + 1 \<le> j" using j by simp
        then show ?thesis using j by blast
      qed
    next
      assume ?R
      then show ?L
      proof
        assume "edge_at w u v i"
        then show ?L using True by blast
      next
        assume "\<exists>j. i + 1 \<le> j \<and> j + 1 < length w \<and> edge_at w u v j"
        then obtain j where "i + 1 \<le> j" "j + 1 < length w" "edge_at w u v j" by blast
        then have "i \<le> j \<and> j + 1 < length w \<and> edge_at w u v j" by simp
        then show ?L by blast
      qed
    qed
    show ?thesis
      by (simp only: containsEdge_from_step [OF True] ih split) simp
  qed
qed

text \<open>The walk has the edge: the result of \<open>containsEdge\<close> on a nonempty walk.\<close>

lemma containsEdge_spec:
  "w \<noteq> [] \<Longrightarrow> containsEdge w u v = Inr (\<exists>j. j + 1 < length w \<and> edge_at w u v j)"
  using containsEdge_from_correct [of w "length w" 0 u v] by (simp add: containsEdge_def)

section \<open>CandidateEdges: properties\<close>

lemma length_fold_update:
  "length (fold (\<lambda>v r. r[v := g v (r ! v)]) vs r) = length r"
  by (induction vs arbitrary: r) simp_all

lemma nth_fold_update:
  "distinct vs \<Longrightarrow> u < length r \<Longrightarrow>
   fold (\<lambda>v r. r[v := g v (r ! v)]) vs r ! u = (if u \<in> set vs then g u (r ! u) else r ! u)"
proof (induction vs arbitrary: r)
  case Nil
  then show ?case by simp
next
  case (Cons a vs)
  then show ?case by (cases "u = a") (auto simp: nth_list_update)
qed

lemma length_insert_by: "length (insert_by lt x ys) = Suc (length ys)"
  by (induction ys) simp_all

lemma set_insert_by: "set (insert_by lt x ys) = insert x (set ys)"
  by (induction ys) auto

lemma length_sort_by: "length (sort_by lt xs) = length xs"
  by (induction xs) (simp_all add: sort_by_def length_insert_by)

lemma set_sort_by: "set (sort_by lt xs) = set xs"
  by (induction xs) (simp_all add: sort_by_def set_insert_by)

lemma length_partial_sort_copy: "length (partial_sort_copy src dest lt) = length dest"
  by (simp add: partial_sort_copy_def Let_def length_sort_by)

lemma set_partial_sort_copy:
  "length dest \<le> length src \<Longrightarrow> set (partial_sort_copy src dest lt) \<subseteq> set src"
  using set_take_subset [of "length dest" "sort_by lt src"]
  by (simp add: partial_sort_copy_def Let_def min_def set_sort_by)

lemma allNeighbors_row:
  "v < getDimension problem \<Longrightarrow>
   allNeighbors problem ! v = removeAll v [0 ..< getDimension problem]"
  by (simp add: allNeighbors_def Let_def nth_fold_update)

lemma length_allNeighbors: "length (allNeighbors problem) = getDimension problem"
  by (simp add: allNeighbors_def Let_def length_fold_update)

lemma length_removeAll_upt: "v < n \<Longrightarrow> length (removeAll v [0 ..< n]) = n - 1"
proof -
  assume "v < n"
  have "distinct [0 ..< n]" by simp
  then have "removeAll v [0 ..< n] = remove1 v [0 ..< n]"
    by (rule distinct_remove1_removeAll [symmetric])
  then show ?thesis using \<open>v < n\<close> by (simp add: length_remove1)
qed

lemma rawNearestNeighbors_row:
  "v < dimension \<Longrightarrow>
   rawNearestNeighbors dimension k distCompare ! v =
     partial_sort_copy (removeAll v [0 ..< dimension]) (replicate k 0) (distCompare v)"
  unfolding rawNearestNeighbors_def Let_def
  by (subst nth_fold_update
        [where g = "\<lambda>v old. partial_sort_copy (removeAll v [0 ..< dimension]) old (distCompare v)"])
     simp_all

lemma length_rawNearestNeighbors:
  "length (rawNearestNeighbors dimension k distCompare) = dimension"
  unfolding rawNearestNeighbors_def Let_def
  by (subst length_fold_update
        [where g = "\<lambda>v old. partial_sort_copy (removeAll v [0 ..< dimension]) old (distCompare v)"])
     simp

lemma rawNearestNeighbors_length_row:
  "v < dimension \<Longrightarrow> length (rawNearestNeighbors dimension k distCompare ! v) = k"
  by (simp add: rawNearestNeighbors_row length_partial_sort_copy)

lemma rawNearestNeighbors_not_self:
  assumes "k < dimension" "v < dimension"
  shows "v \<notin> set (rawNearestNeighbors dimension k distCompare ! v)"
proof -
  have "length (replicate k (0::nat)) \<le> length (removeAll v [0 ..< dimension])"
    using assms by (simp add: length_removeAll_upt)
  from set_partial_sort_copy [OF this, of "distCompare v"]
  show ?thesis using assms by (auto simp: rawNearestNeighbors_row)
qed

text \<open>
  Claim C7.  With \<open>k < N\<close>, every strategy yields a table of \<open>N\<close> rows in which the row of a
  vertex \<open>v\<close> does not contain \<open>v\<close>; the row has \<open>N - 1\<close> entries for \<open>ALL_NEIGHBORS\<close> and
  \<open>k\<close> entries for the other strategies.
\<close>

theorem create_rows:
  assumes "k < getDimension problem" "v < getDimension problem"
  shows "\<exists>edges. create problem ty k = Inr edges \<and> length edges = getDimension problem \<and>
           v \<notin> set (edges ! v) \<and>
           length (edges ! v) = (if ty = ALL_NEIGHBORS then getDimension problem - 1 else k)"
proof (cases ty)
  case ALL_NEIGHBORS
  then show ?thesis using assms
    by (simp add: create_def allNeighbors_row length_removeAll_upt length_allNeighbors)
next
  case NEAREST_NEIGHBORS
  then show ?thesis using assms
    by (simp add: create_def nearestNeighbors_def Let_def
        rawNearestNeighbors_length_row rawNearestNeighbors_not_self length_rawNearestNeighbors)
next
  case ALPHA_NEAREST_NEIGHBORS
  then show ?thesis using assms
    by (simp add: create_def alphaNearestNeighbors_def Let_def
        rawNearestNeighbors_length_row rawNearestNeighbors_not_self length_rawNearestNeighbors)
next
  case OPTIMIZED_ALPHA_NEAREST_NEIGHBORS
  then show ?thesis using assms
    by (simp add: create_def optimizedAlphaNearestNeighbors_def Let_def
        rawNearestNeighbors_length_row rawNearestNeighbors_not_self length_rawNearestNeighbors)
qed

theorem create_rows_witness:
  "2 < getDimension line3 \<and> 1 < getDimension line3 \<and>
   (\<exists>edges. create line3 ALPHA_NEAREST_NEIGHBORS 2 = Inr edges \<and>
      length edges = getDimension line3 \<and> 1 \<notin> set (edges ! 1) \<and> length (edges ! 1) = 2)"
proof -
  have "getDimension line3 = 3" by code_simp
  then show ?thesis
    using create_rows [of 2 line3 1 ALPHA_NEAREST_NEIGHBORS] by simp
qed

text \<open>
  Claim C5 does not hold: with three vertices and \<open>k = 3\<close>, \<open>create\<close> returns a table for
  \<open>NEAREST_NEIGHBORS\<close>.  Each row holds the two other vertices, nearest first, and keeps
  the \<open>0\<close> of its initial value at the last place.
\<close>

theorem create_large_k_counterexample:
  "getDimension line3 \<le> 3 \<and>
   create line3 NEAREST_NEIGHBORS 3 = Inr [[1, 2, 0], [0, 2, 0], [1, 0, 0]]"
  by code_simp

text \<open>
  Claim C5, amended.  For every \<open>k\<close>, also \<open>k \<ge> N\<close>, \<open>create\<close> raises no error: for a
  neighbour-based strategy it returns a table of \<open>N\<close> rows, and the row of every vertex has
  \<open>k\<close> entries.
\<close>

theorem create_returns_table:
  assumes "ty \<noteq> ALL_NEIGHBORS" "v < getDimension problem"
  shows "\<exists>edges. create problem ty k = Inr edges \<and> length edges = getDimension problem \<and>
           length (edges ! v) = k"
  using assms
  by (cases ty)
     (simp_all add: create_def nearestNeighbors_def alphaNearestNeighbors_def
        optimizedAlphaNearestNeighbors_def Let_def rawNearestNeighbors_length_row
        length_rawNearestNeighbors)

theorem create_returns_table_witness:
  "NEAREST_NEIGHBORS \<noteq> ALL_NEIGHBORS \<and> 2 < getDimension line3 \<and>
   (\<exists>edges. create line3 NEAREST_NEIGHBORS 7 = Inr edges \<and>
      length edges = getDimension line3 \<and> length (edges ! 2) = 7)"
proof -
  have "getDimension line3 = 3" by code_simp
  then show ?thesis
    using create_returns_table [of NEAREST_NEIGHBORS 2 line3 7] by simp
qed

section \<open>Fallible steps and the choice of the next vertices\<close>

lemma bindE_Inr [simp]: "bindE (Inr x) f = f x"
  by (simp add: bindE_def)

lemma bindE_Inl [simp]: "bindE (Inl e) f = Inl e"
  by (simp add: bindE_def)

lemma bindE_eq_Inl: "bindE m f = Inl e \<longleftrightarrow> m = Inl e \<or> (\<exists>x. m = Inr x \<and> f x = Inl e)"
  by (cases m) simp_all

lemma bindE_eq_Inr: "bindE m f = Inr y \<longleftrightarrow> (\<exists>x. m = Inr x \<and> f x = Inr y)"
  by (cases m) simp_all

lemma filterE_total:
  "(\<And>x. x \<in> set xs \<Longrightarrow> p x = Inr (q x)) \<Longrightarrow> filterE p xs = Inr (filter q xs)"
  by (induction xs) simp_all

lemma filterE_error: "filterE p xs = Inl e \<Longrightarrow> \<exists>x\<in>set xs. p x = Inl e"
proof (induction xs)
  case Nil
  then show ?case by simp
next
  case (Cons a xs)
  then show ?case by (auto simp: bindE_eq_Inl)
qed

lemma nth_checked_error: "nth_checked xs i = Inl e \<Longrightarrow> e = OutOfRange"
  by (simp add: nth_checked_def split: if_splits)

text \<open>On a nonempty walk the choice of the in-edges is a filter of the candidate row.\<close>

lemma in_edge_choices_filter:
  assumes "walk \<noteq> []" "xi < length candidateEdges"
  shows "in_edge_choices problem candidateEdges tour walk gainSoFar xi =
     Inr (filter (\<lambda>x. x \<noteq> walk ! 0 \<and> x \<noteq> predecessor problem tour xi \<and>
                      x \<noteq> successor problem tour xi \<and>
                      \<not> (\<exists>j. j + 1 < length walk \<and> edge_at walk xi x j) \<and>
                      exchangeGain problem walk - int (dist problem xi x) > gainSoFar)
            (candidateEdges ! xi))"
  using assms
  by (simp add: in_edge_choices_def nth_checked_def Let_def containsEdge_spec
        filterE_total [where q = "\<lambda>x. x \<noteq> walk ! 0 \<and> x \<noteq> predecessor problem tour xi \<and>
                      x \<noteq> successor problem tour xi \<and>
                      \<not> (\<exists>j. j + 1 < length walk \<and> edge_at walk xi x j) \<and>
                      exchangeGain problem walk - int (dist problem xi x) > gainSoFar"])


lemma score_closure_error:
  "score_closure problem tour walk best gainSoFar i = Inl e \<Longrightarrow> e = OutOfRange"
  by (auto simp: score_closure_def close_def bindE_eq_Inl Let_def split: if_splits)

lemma in_edge_choices_error:
  assumes "walk \<noteq> []"
  shows "in_edge_choices problem candidateEdges tour walk gainSoFar xi \<noteq> Inl EdgeOutOfRange"
proof (cases "xi < length candidateEdges")
  case True
  then show ?thesis using assms by (simp add: in_edge_choices_filter)
next
  case False
  then show ?thesis by (simp add: in_edge_choices_def nth_checked_def Let_def)
qed

lemma out_edge_choices_error:
  assumes "walk \<noteq> []"
  shows "out_edge_choices problem bestTour tour walk i xi \<noteq> Inl EdgeOutOfRange"
proof
  assume err: "out_edge_choices problem bestTour tour walk i xi = Inl EdgeOutOfRange"
  have edge: "containsEdge walk xi n \<noteq> Inl EdgeOutOfRange" for n
    using assms by (simp add: containsEdge_spec)
  from err show False
    unfolding out_edge_choices_def
    using assms edge
    by (auto simp: nth_checked_def bindE_eq_Inl appendAndClose_def Let_def
          split: if_splits dest!: filterE_error)
qed

lemma improve_step_edge_safe:
  "improve_step problem candidateEdges bestTour s \<noteq> Inl EdgeOutOfRange"
proof
  assume err: "improve_step problem candidateEdges bestTour s = Inl EdgeOutOfRange"
  have a: "in_edge_choices problem candidateEdges (currentTour s) (currentWalk s @ [x]) g xi
        \<noteq> Inl EdgeOutOfRange" for x g xi
    by (rule in_edge_choices_error) simp
  have b: "out_edge_choices problem bestTour (currentTour s) (currentWalk s @ [x]) i xi
        \<noteq> Inl EdgeOutOfRange" for x i xi
    by (rule out_edge_choices_error) simp
  from err show False
    unfolding improve_step_def Let_def
    using a b
    by (auto simp: bindE_eq_Inl split: if_splits prod.splits
          dest: nth_checked_error score_closure_error)
qed

text \<open>
  Claim C9.  On a nonempty walk \<open>containsEdge\<close> reads no element outside the walk and
  returns whether some consecutive pair of the walk is the unordered pair of its
  arguments.  Every call in \<open>improveTour\<close> is made on the walk just extended by a vertex:
  no pass through the loop body fails by a read outside the walk in \<open>containsEdge\<close>,
  whatever the state.
\<close>

theorem containsEdge_safe:
  "(w \<noteq> [] \<longrightarrow>
      containsEdge w u v = Inr (\<exists>j. j + 1 < length w \<and> edge_at w u v j)) \<and>
   improve_step problem candidateEdges bestTour s \<noteq> Inl EdgeOutOfRange"
  by (simp add: containsEdge_spec improve_step_edge_safe)

theorem containsEdge_safe_witness:
  "[3, 1, 2] \<noteq> ([] :: walk) \<and>
   containsEdge [3, 1, 2] 2 1 = Inr (\<exists>j. j + 1 < length [3, 1, 2 :: vertex] \<and> edge_at [3, 1, 2] 2 1 j) \<and>
   containsEdge [3, 1, 2] 2 1 = Inr True \<and>
   improve_step line4 (allNeighbors line4) [] (round_start line4 [0, 2, 1, 3]) \<noteq> Inl EdgeOutOfRange"
proof -
  have "containsEdge [3, 1, 2] 2 1 = Inr True" by code_simp
  then show ?thesis
    using containsEdge_safe [of "[3, 1, 2]" 2 1 line4 "allNeighbors line4" "[]"
        "round_start line4 [0, 2, 1, 3]"]
    by simp
qed

text \<open>
  Claim C6.  In a pass that extends the walk at an odd position \<open>i\<close>, the vertices put
  into \<open>X_(i+1)\<close> are exactly the candidates \<open>x\<close> of \<open>x_i\<close> that differ from \<open>x_0\<close>, are
  not a neighbour of \<open>x_i\<close> on the current tour (neither its predecessor nor its
  successor), do not form an edge of the walk with \<open>x_i\<close>, and for which the gain of the
  walk minus the distance from \<open>x_i\<close> to \<open>x\<close> exceeds the highest gain (as it is after
  the closure has been scored).
\<close>

theorem in_edge_choices_iff:
  assumes step: "improve_step problem candidateEdges bestTour s = Inr (Next s')"
    and extend: "vertexChoices s ! pos s \<noteq> []"
    and sets: "length (vertexChoices s) = pos s + 1"
    and odd: "pos s mod 2 = 1"
  shows "x \<in> set (vertexChoices s' ! (pos s + 1)) \<longleftrightarrow>
     x \<in> set (candidateEdges ! (currentWalk s' ! pos s)) \<and>
     x \<noteq> currentWalk s' ! 0 \<and>
     x \<noteq> predecessor problem (currentTour s') (currentWalk s' ! pos s) \<and>
     x \<noteq> successor problem (currentTour s') (currentWalk s' ! pos s) \<and>
     \<not> (\<exists>j. j + 1 < length (currentWalk s') \<and> edge_at (currentWalk s') (currentWalk s' ! pos s) x j) \<and>
     exchangeGain problem (currentWalk s') -
       int (dist problem (currentWalk s' ! pos s) x) > highestGain s'"
proof -
  let ?Xi = "vertexChoices s ! pos s"
  let ?walk = "currentWalk s @ [last ?Xi]"
  have Xi: "nth_checked (vertexChoices s) (pos s) = Inr ?Xi"
    using sets by (simp add: nth_checked_def)
  from step Xi extend odd obtain best gain xi Xnext where
    score: "score_closure problem (currentTour s) ?walk (bestAlternatingWalk s) (highestGain s)
              (pos s) = Inr (best, gain)"
    and xi: "nth_checked ?walk (pos s) = Inr xi"
    and choices: "in_edge_choices problem candidateEdges (currentTour s) ?walk gain xi = Inr Xnext"
    and s': "s' = \<lparr> currentTour = currentTour s,
                    vertexChoices = ((vertexChoices s)[pos s := butlast ?Xi] @ [[]])
                      [pos s + 1 := ((vertexChoices s)[pos s := butlast ?Xi] @ [[]]) ! (pos s + 1) @ Xnext],
                    currentWalk = ?walk, bestAlternatingWalk = best, highestGain = gain,
                    pos = pos s + 1 \<rparr>"
    unfolding improve_step_def Let_def
    by (auto simp: bindE_eq_Inr split: if_splits prod.splits)
  have xi_eq: "xi = ?walk ! pos s" and in_walk: "pos s < length ?walk"
    using xi by (auto simp: nth_checked_def split: if_splits)
  have row: "xi < length candidateEdges"
    using choices by (auto simp: in_edge_choices_def Let_def nth_checked_def bindE_eq_Inr split: if_splits)
  have Xnext: "vertexChoices s' ! (pos s + 1) = Xnext"
    using sets by (simp add: s' nth_append)
  have "Xnext = filter (\<lambda>x. x \<noteq> ?walk ! 0 \<and> x \<noteq> predecessor problem (currentTour s) xi \<and>
                      x \<noteq> successor problem (currentTour s) xi \<and>
                      \<not> (\<exists>j. j + 1 < length ?walk \<and> edge_at ?walk xi x j) \<and>
                      exchangeGain problem ?walk - int (dist problem xi x) > gain)
            (candidateEdges ! xi)"
    using choices in_edge_choices_filter [of ?walk xi candidateEdges problem "currentTour s" gain] row
    by simp
  then have "x \<in> set Xnext \<longleftrightarrow>
     x \<in> set (candidateEdges ! xi) \<and> x \<noteq> ?walk ! 0 \<and>
     x \<noteq> predecessor problem (currentTour s) xi \<and> x \<noteq> successor problem (currentTour s) xi \<and>
     \<not> (\<exists>j. j + 1 < length ?walk \<and> edge_at ?walk xi x j) \<and>
     exchangeGain problem ?walk - int (dist problem xi x) > gain"
    by (simp only: set_filter mem_Collect_eq)
  moreover have "currentWalk s' = ?walk" "currentTour s' = currentTour s" "highestGain s' = gain"
    by (simp_all add: s')
  ultimately show ?thesis
    by (simp only: Xnext xi_eq [symmetric])
qed

theorem in_edge_choices_iff_witness:
  "improve_step line4 (allNeighbors line4) []
     \<lparr> currentTour = [0, 2, 1, 3], vertexChoices = [[0, 1, 2], [1, 0]], currentWalk = [3],
       bestAlternatingWalk = [], highestGain = 0, pos = 1 \<rparr> =
   Inr (Next \<lparr> currentTour = [0, 2, 1, 3], vertexChoices = [[0, 1, 2], [1], [1]],
               currentWalk = [3, 0], bestAlternatingWalk = [], highestGain = 0, pos = 2 \<rparr>) \<and>
   (1 \<in> set ([[0, 1, 2], [1], [1 :: vertex]] ! 2) \<longleftrightarrow>
      1 \<in> set (allNeighbors line4 ! 0) \<and> 1 \<noteq> (3 :: vertex) \<and>
      1 \<noteq> predecessor line4 [0, 2, 1, 3] 0 \<and> 1 \<noteq> successor line4 [0, 2, 1, 3] 0 \<and>
      \<not> (\<exists>j. j + 1 < length [3, 0 :: vertex] \<and> edge_at [3, 0] 0 1 j) \<and>
      exchangeGain line4 [3, 0] - int (dist line4 0 1) > 0)"
proof -
  let ?s = "\<lparr> currentTour = [0, 2, 1, 3], vertexChoices = [[0, 1, 2], [1, 0]],
              currentWalk = [3], bestAlternatingWalk = [], highestGain = 0, pos = 1 \<rparr>
            :: list_tour search_state"
  let ?s' = "\<lparr> currentTour = [0, 2, 1, 3], vertexChoices = [[0, 1, 2], [1], [1]],
               currentWalk = [3, 0], bestAlternatingWalk = [], highestGain = 0, pos = 2 \<rparr>
             :: list_tour search_state"
  have step: "improve_step line4 (allNeighbors line4) [] ?s = Inr (Next ?s')"
    by code_simp
  show ?thesis
    using step in_edge_choices_iff [OF step, of 1] by simp
qed

section \<open>generateRandomTour: properties\<close>

lemma chooseRandomElement_Inr:
  "elements \<noteq> [] \<Longrightarrow>
   chooseRandomElement device n elements =
     Inr (elements ! (device n mod length elements), n + 1)"
  by (simp add: chooseRandomElement_def)

lemma next_vertex_nonempty:
  assumes "remainingVertices \<noteq> []"
  shows "next_vertex problem candidateEdges bestTour device n currentVertex remainingVertices
           \<noteq> Inl EmptyChoice"
  using assms
  by (auto simp: next_vertex_def Let_def nth_checked_def chooseRandomElement_Inr)

lemma generate_loop_nonempty:
  "generate_loop problem candidateEdges bestTour device n currentVertex remainingVertices
     tourOrder \<noteq> Inl EmptyChoice"
proof (induction problem candidateEdges bestTour device n currentVertex remainingVertices
    tourOrder rule: generate_loop.induct)
  case (1 problem candidateEdges bestTour device n currentVertex remainingVertices tourOrder)
  show ?case
  proof (cases "remainingVertices = []")
    case True
    then show ?thesis by (subst generate_loop.simps) simp
  next
    case False
    show ?thesis
    proof (cases "next_vertex problem candidateEdges bestTour device n currentVertex
        remainingVertices")
      case (Inl e)
      then have "e \<noteq> EmptyChoice" using next_vertex_nonempty [OF False] by metis
      then show ?thesis using False Inl by (subst generate_loop.simps) simp
    next
      case (Inr r)
      obtain v n' where r: "r = (v, n')" by (cases r)
      show ?thesis
        using "1.IH" [OF False Inr r [symmetric]] False Inr r
        by (subst generate_loop.simps) simp
    qed
  qed
qed

text \<open>
  Claim C10, amended.  For a problem with at least one vertex, no call of
  \<open>chooseRandomElement\<close> in \<open>generateRandomTour\<close> is made on an empty vector: the first
  choice is among all vertices, and in the loop each of the three vectors is chosen from
  only when it is not empty.  The index chosen is inside the vector.
\<close>

theorem chooseRandomElement_nonempty:
  assumes "0 < getDimension problem"
  shows "generateRandomTour problem candidateEdges bestTour device n \<noteq> Inl EmptyChoice"
proof -
  let ?all = "[0 ..< getDimension problem]"
  let ?first = "?all ! (device n mod length ?all)"
  have "?all \<noteq> []" using assms by simp
  then have first: "chooseRandomElement device n ?all = Inr (?first, n + 1)"
    by (rule chooseRandomElement_Inr)
  have "generate_loop problem candidateEdges bestTour device (n + 1) ?first
          (take ?first ?all @ drop (?first + 1) ?all) [?first] \<noteq> Inl EmptyChoice"
    by (rule generate_loop_nonempty)
  then show ?thesis
    unfolding generateRandomTour_def Let_def first
    by (auto simp: bindE_eq_Inl)
qed

text \<open>
  With no vertex at all the first choice is made on the empty vector, whatever the
  candidate edges, the best tour and the device.
\<close>

lemma generateRandomTour_empty:
  "getDimension problem = 0 \<Longrightarrow>
   generateRandomTour problem candidateEdges bestTour device n = Inl EmptyChoice"
  by (simp add: generateRandomTour_def chooseRandomElement_def)

text \<open>
  Claim C10 does not hold for every problem: nothing in the constructor of the solver or
  in \<open>findBestTour\<close> excludes a problem of dimension 0, and for it the first call of
  \<open>chooseRandomElement\<close>, on all vertices, is made on the empty vector.
\<close>

theorem chooseRandomElement_empty_counterexample:
  "getDimension empty0 = 0 \<and>
   generateRandomTour empty0 [] [] device_zero 0 = Inl EmptyChoice"
  by code_simp

theorem chooseRandomElement_nonempty_witness:
  "0 < getDimension unit3 \<and>
   generateRandomTour unit3 (allNeighbors unit3) [] device_zero 0 \<noteq> Inl EmptyChoice \<and>
   generateRandomTour unit3 (allNeighbors unit3) [] device_zero 0 = Inr ([0, 1, 2], 3)"
proof -
  have "getDimension unit3 = 3" by code_simp
  moreover have "generateRandomTour unit3 (allNeighbors unit3) [] device_zero 0 = Inr ([0, 1, 2], 3)"
    by code_simp
  ultimately show ?thesis
    using chooseRandomElement_nonempty [of unit3 "allNeighbors unit3" "[]" device_zero 0]
    by simp
qed

section \<open>findBestTour: the random device\<close>

lemma chooseRandomElement_device:
  "device1 n = device2 n \<Longrightarrow>
   chooseRandomElement device1 n elements = chooseRandomElement device2 n elements"
  by (simp add: chooseRandomElement_def)

lemma chooseRandomElement_drawn:
  "chooseRandomElement device n elements = Inr (v, n') \<Longrightarrow> n' = n + 1 \<and> v \<in> set elements"
  by (auto simp: chooseRandomElement_def split: if_splits)

lemma next_vertex_device:
  "device1 n = device2 n \<Longrightarrow>
   next_vertex problem candidateEdges bestTour device1 n currentVertex remainingVertices =
   next_vertex problem candidateEdges bestTour device2 n currentVertex remainingVertices"
  by (simp add: next_vertex_def Let_def chooseRandomElement_device [of device1 n device2]
        cong: if_cong)

lemma next_vertex_drawn:
  assumes "next_vertex problem candidateEdges bestTour device n currentVertex remainingVertices
     = Inr (v, n')"
  shows "n' = n + 1 \<and> v \<in> set remainingVertices"
proof -
  from assms obtain row where "nth_checked candidateEdges currentVertex = Inr row"
    and pick: "(let candidatesInBestTour =
             filter (\<lambda>otherVertex. otherVertex \<in> set remainingVertices \<and>
                       tourDimension problem bestTour \<noteq> 0 \<and>
                       tourContainsEdge problem bestTour currentVertex otherVertex) row;
           candidates = filter (\<lambda>otherVertex. otherVertex \<in> set remainingVertices) row
       in if candidatesInBestTour \<noteq> [] then chooseRandomElement device n candidatesInBestTour
          else if candidates \<noteq> [] then chooseRandomElement device n candidates
          else chooseRandomElement device n remainingVertices) = Inr (v, n')"
    unfolding next_vertex_def by (auto simp: bindE_eq_Inr)
  let ?A = "filter (\<lambda>otherVertex. otherVertex \<in> set remainingVertices \<and>
                       tourDimension problem bestTour \<noteq> 0 \<and>
                       tourContainsEdge problem bestTour currentVertex otherVertex) row"
  let ?B = "filter (\<lambda>otherVertex. otherVertex \<in> set remainingVertices) row"
  from pick consider "chooseRandomElement device n ?A = Inr (v, n')"
    | "chooseRandomElement device n ?B = Inr (v, n')"
    | "chooseRandomElement device n remainingVertices = Inr (v, n')"
    unfolding Let_def by (auto split: if_splits)
  then show ?thesis
  proof cases
    case 1
    from chooseRandomElement_drawn [OF this] show ?thesis by auto
  next
    case 2
    from chooseRandomElement_drawn [OF this] show ?thesis by auto
  next
    case 3
    from chooseRandomElement_drawn [OF this] show ?thesis by auto
  qed
qed

lemma generate_loop_device:
  "(\<And>j. n \<le> j \<Longrightarrow> j < n + length remainingVertices \<Longrightarrow> device1 j = device2 j) \<Longrightarrow>
   generate_loop problem candidateEdges bestTour device1 n currentVertex remainingVertices
     tourOrder =
   generate_loop problem candidateEdges bestTour device2 n currentVertex remainingVertices
     tourOrder"
proof (induction problem candidateEdges bestTour device1 n currentVertex remainingVertices
    tourOrder rule: generate_loop.induct)
  case (1 problem candidateEdges bestTour device1 n currentVertex remainingVertices tourOrder)
  show ?case
  proof (cases "remainingVertices = []")
    case True
    then show ?thesis by (simp add: generate_loop.simps)
  next
    case False
    have same: "device1 n = device2 n" using "1.prems" [of n] False by simp
    note pick = next_vertex_device [of device1 n device2 problem candidateEdges bestTour
        currentVertex remainingVertices, OF same]
    show ?thesis
    proof (cases "next_vertex problem candidateEdges bestTour device1 n currentVertex
        remainingVertices")
      case (Inl e)
      moreover have "next_vertex problem candidateEdges bestTour device2 n currentVertex
          remainingVertices = Inl e"
        using pick Inl by simp
      ultimately show ?thesis using False
        by (simp add: generate_loop.simps [of _ _ _ _ n currentVertex remainingVertices])
    next
      case (Inr r)
      obtain v n' where r: "r = (v, n')" by (cases r)
      from next_vertex_drawn [OF Inr [unfolded r]]
      have n': "n' = n + 1" and v: "v \<in> set remainingVertices" by simp_all
      have shorter: "length (removeAll v remainingVertices) < length remainingVertices"
        using v by (rule length_removeAll_less)
      have "generate_loop problem candidateEdges bestTour device1 n' v
              (removeAll v remainingVertices) (tourOrder @ [v]) =
            generate_loop problem candidateEdges bestTour device2 n' v
              (removeAll v remainingVertices) (tourOrder @ [v])"
      proof (rule "1.IH" [OF False Inr r [symmetric]])
        fix j
        assume "n' \<le> j" "j < n' + length (removeAll v remainingVertices)"
        then show "device1 j = device2 j" using "1.prems" [of j] n' shorter by simp
      qed
      moreover have "next_vertex problem candidateEdges bestTour device1 n currentVertex
          remainingVertices = Inr (v, n')"
        and "next_vertex problem candidateEdges bestTour device2 n currentVertex
          remainingVertices = Inr (v, n')"
        using pick Inr r by simp_all
      ultimately show ?thesis using False
        by (simp add: generate_loop.simps [of _ _ _ _ n currentVertex remainingVertices])
    qed
  qed
qed

lemma generate_loop_drawn:
  "generate_loop problem candidateEdges bestTour device n currentVertex remainingVertices
     tourOrder = Inr (order', n') \<Longrightarrow> n' \<le> n + length remainingVertices"
proof (induction problem candidateEdges bestTour device n currentVertex remainingVertices
    tourOrder rule: generate_loop.induct)
  case (1 problem candidateEdges bestTour device n currentVertex remainingVertices tourOrder)
  show ?case
  proof (cases "remainingVertices = []")
    case True
    then show ?thesis using "1.prems" by (simp add: generate_loop.simps)
  next
    case False
    from "1.prems" False obtain v m where
      pick: "next_vertex problem candidateEdges bestTour device n currentVertex
               remainingVertices = Inr (v, m)"
      and rest: "generate_loop problem candidateEdges bestTour device m v
               (removeAll v remainingVertices) (tourOrder @ [v]) = Inr (order', n')"
      by (subst (asm) generate_loop.simps) (auto split: sum.splits)
    from next_vertex_drawn [OF pick]
    have m: "m = n + 1" and v: "v \<in> set remainingVertices" by simp_all
    have shorter: "length (removeAll v remainingVertices) < length remainingVertices"
      using v by (rule length_removeAll_less)
    from "1.IH" [OF False pick refl rest] m shorter show ?thesis by simp
  qed
qed

lemma generateRandomTour_device:
  assumes "\<And>j. n \<le> j \<Longrightarrow> j < n + getDimension problem \<Longrightarrow> device1 j = device2 j"
  shows "generateRandomTour problem candidateEdges bestTour device1 n =
         generateRandomTour problem candidateEdges bestTour device2 n"
proof (cases "getDimension problem = 0")
  case True
  then show ?thesis by (simp add: generateRandomTour_def chooseRandomElement_def)
next
  case False
  let ?all = "[0 ..< getDimension problem]"
  have same: "device1 n = device2 n" using assms [of n] False by simp
  let ?first = "?all ! (device2 n mod length ?all)"
  have first1: "chooseRandomElement device1 n ?all = Inr (?first, n + 1)"
    and first2: "chooseRandomElement device2 n ?all = Inr (?first, n + 1)"
    using False same by (simp_all add: chooseRandomElement_def)
  have "?first = device2 n mod getDimension problem" using False by simp
  moreover have "device2 n mod getDimension problem < getDimension problem" using False by simp
  ultimately have len:
    "length (take ?first ?all @ drop (?first + 1) ?all) = getDimension problem - 1"
    by simp
  have "generate_loop problem candidateEdges bestTour device1 (n + 1) ?first
          (take ?first ?all @ drop (?first + 1) ?all) [?first] =
        generate_loop problem candidateEdges bestTour device2 (n + 1) ?first
          (take ?first ?all @ drop (?first + 1) ?all) [?first]"
  proof (rule generate_loop_device)
    fix j
    assume "n + 1 \<le> j" "j < n + 1 + length (take ?first ?all @ drop (?first + 1) ?all)"
    then show "device1 j = device2 j" using assms [of j] False unfolding len by simp
  qed
  then show ?thesis
    unfolding generateRandomTour_def Let_def first1 first2 by simp
qed

lemma generateRandomTour_drawn:
  assumes "generateRandomTour problem candidateEdges bestTour device n = Inr (tour, n')"
  shows "n' \<le> n + getDimension problem"
proof -
  let ?all = "[0 ..< getDimension problem]"
  from assms obtain v m order' where
    first: "chooseRandomElement device n ?all = Inr (v, m)"
    and rest: "generate_loop problem candidateEdges bestTour device m v
                 (take v ?all @ drop (v + 1) ?all) [v] = Inr (order', n')"
    unfolding generateRandomTour_def Let_def
    by (auto simp: bindE_eq_Inr)
  from first have m: "m = n + 1" and v: "v < getDimension problem" "getDimension problem \<noteq> 0"
    by (auto simp: chooseRandomElement_def split: if_splits)
  from generate_loop_drawn [OF rest] m v show ?thesis by simp
qed

lemma trial_loop_device:
  "(\<And>j. j < drawn st + (numberOfTrials - trialCount st) * getDimension problem
       \<Longrightarrow> device1 j = device2 j) \<Longrightarrow>
   trial_loop problem candidateEdges device1 numberOfTrials optimumTourLength acceptableError st =
   trial_loop problem candidateEdges device2 numberOfTrials optimumTourLength acceptableError st"
proof (induction problem candidateEdges device1 numberOfTrials optimumTourLength acceptableError
    st rule: trial_loop.induct)
  case (1 problem candidateEdges device1 numberOfTrials optimumTourLength acceptableError st)
  let ?N = "getDimension problem"
  show ?case
  proof (cases "trialCount st < numberOfTrials")
    case False
    then show ?thesis by (simp add: trial_loop.simps [of _ _ _ numberOfTrials _ _ st])
  next
    case True
    then have room: "drawn st + ?N \<le> drawn st + (numberOfTrials - trialCount st) * ?N"
      by (cases "numberOfTrials - trialCount st") simp_all
    have gen: "generateRandomTour problem candidateEdges (currentBestTour st) device1 (drawn st) =
        generateRandomTour problem candidateEdges (currentBestTour st) device2 (drawn st)"
    proof (rule generateRandomTour_device)
      fix j
      assume "drawn st \<le> j" "j < drawn st + ?N"
      then show "device1 j = device2 j" using "1.prems" [of j] room by simp
    qed
    show ?thesis
    proof (cases "generateRandomTour problem candidateEdges (currentBestTour st) device1 (drawn st)")
      case (Inl e)
      moreover have "generateRandomTour problem candidateEdges (currentBestTour st) device2
          (drawn st) = Inl e"
        using gen Inl by simp
      ultimately show ?thesis using True
        by (simp add: trial_loop.simps [of _ _ _ numberOfTrials _ _ st])
    next
      case (Inr r)
      obtain startTour n' where r: "r = (startTour, n')" by (cases r)
      have gen1: "generateRandomTour problem candidateEdges (currentBestTour st) device1
          (drawn st) = Inr (startTour, n')"
        and gen2: "generateRandomTour problem candidateEdges (currentBestTour st) device2
          (drawn st) = Inr (startTour, n')"
        using gen Inr r by simp_all
      have n': "n' \<le> drawn st + ?N"
        using generateRandomTour_drawn [OF gen1] .
      show ?thesis
      proof (cases "improveTour problem candidateEdges (currentBestTour st) startTour")
        case None
        then show ?thesis using True gen1 gen2
          by (simp add: trial_loop.simps [of _ _ _ numberOfTrials _ _ st])
      next
        case (Some res)
        show ?thesis
        proof (cases res)
          case (Inl e)
          then show ?thesis using True gen1 gen2 Some
            by (simp add: trial_loop.simps [of _ _ _ numberOfTrials _ _ st])
        next
          case improved: (Inr improved)
          define st1 where "st1 =
            (if tourLength problem improved < currentBestLength st
             then \<lparr> currentBestTour = improved, currentBestLength = tourLength problem improved,
                    trialCount = trialCount st + 1, drawn = n' \<rparr>
             else \<lparr> currentBestTour = currentBestTour st,
                    currentBestLength = currentBestLength st,
                    trialCount = trialCount st + 1, drawn = n' \<rparr>)"
          have st1: "trialCount st1 = trialCount st + 1" "drawn st1 = n'"
            by (simp_all add: st1_def)
          have unfold1: "trial_loop problem candidateEdges device1 numberOfTrials
              optimumTourLength acceptableError st =
            (if below_threshold (tourLength problem (currentBestTour st1)) acceptableError
                  optimumTourLength
             then Some (Inr st1)
             else trial_loop problem candidateEdges device1 numberOfTrials optimumTourLength
                    acceptableError st1)"
            using True gen1 Some improved
            by (subst trial_loop.simps) (simp add: st1_def Let_def)
          have unfold2: "trial_loop problem candidateEdges device2 numberOfTrials
              optimumTourLength acceptableError st =
            (if below_threshold (tourLength problem (currentBestTour st1)) acceptableError
                  optimumTourLength
             then Some (Inr st1)
             else trial_loop problem candidateEdges device2 numberOfTrials optimumTourLength
                    acceptableError st1)"
            using True gen2 Some improved
            by (subst trial_loop.simps) (simp add: st1_def Let_def)
          show ?thesis
          proof (cases "below_threshold (tourLength problem (currentBestTour st1)) acceptableError
              optimumTourLength")
            case True
            then show ?thesis by (simp add: unfold1 unfold2)
          next
            case False
            have "trial_loop problem candidateEdges device1 numberOfTrials optimumTourLength
                acceptableError st1 =
              trial_loop problem candidateEdges device2 numberOfTrials optimumTourLength
                acceptableError st1"
            proof (rule "1.IH" [OF True gen1 refl Some improved st1_def False])
              fix j
              assume j: "j < drawn st1 + (numberOfTrials - trialCount st1) * ?N"
              have "drawn st1 + (numberOfTrials - trialCount st1) * ?N \<le>
                  drawn st + ?N + (numberOfTrials - trialCount st - 1) * ?N"
                using n' by (simp add: st1)
              also have "\<dots> = drawn st + (numberOfTrials - trialCount st) * ?N"
                using True by (cases "numberOfTrials - trialCount st") simp_all
              finally show "device1 j = device2 j" using "1.prems" [of j] j by simp
            qed
            then show ?thesis using False by (simp add: unfold1 unfold2)
          qed
        qed
      qed
    qed
  qed
qed

text \<open>
  Claim C4, amended.  \<open>findBestTour\<close> has no seed; its result is determined by the problem,
  the candidate edges, its arguments and the values that the random device yields: two
  runs whose first \<open>numberOfTrials * N\<close> draws agree return the same result.
\<close>

theorem findBestTour_same_draws:
  assumes "\<And>j. j < numberOfTrials * getDimension problem \<Longrightarrow> device1 j = device2 j"
  shows "findBestTour problem candidateEdges bestTour device1 distanceMax numberOfTrials
           optimumTourLength acceptableError =
         findBestTour problem candidateEdges bestTour device2 distanceMax numberOfTrials
           optimumTourLength acceptableError"
proof -
  have "trial_loop problem candidateEdges device1 numberOfTrials optimumTourLength
          acceptableError
          \<lparr> currentBestTour = bestTour, currentBestLength = distanceMax, trialCount = 0,
            drawn = 0 \<rparr> =
        trial_loop problem candidateEdges device2 numberOfTrials optimumTourLength
          acceptableError
          \<lparr> currentBestTour = bestTour, currentBestLength = distanceMax, trialCount = 0,
            drawn = 0 \<rparr>"
    by (rule trial_loop_device) (simp add: assms)
  then show ?thesis by (simp add: findBestTour_def findBestTour_state_def)
qed

theorem findBestTour_same_draws_witness:
  "device_zero 0 = device_late 0 \<and> device_zero 1 = device_late 1 \<and>
   device_zero 2 = device_late 2 \<and> device_zero 3 = device_late 3 \<and>
   device_zero 4 \<noteq> device_late 4 \<and>
   findBestTour unit4 (allNeighbors unit4) [] device_zero (2 ^ 64 - 1) 1 0 0 =
   findBestTour unit4 (allNeighbors unit4) [] device_late (2 ^ 64 - 1) 1 0 0"
proof -
  have "getDimension unit4 = 4" by code_simp
  then have "j < 1 * getDimension unit4 \<Longrightarrow> device_zero j = device_late j" for j
    by (simp add: device_zero_def device_late_def)
  from findBestTour_same_draws [of 1 unit4 device_zero device_late, OF this]
  show ?thesis by (simp add: device_zero_def device_late_def)
qed

lemma unit4_generate_zero:
  "generateRandomTour unit4 (allNeighbors unit4) [] device_zero 0 = Inr ([0, 1, 2, 3], 4)"
  by code_simp

lemma unit4_generate_other:
  "generateRandomTour unit4 (allNeighbors unit4) [] device_other 0 = Inr ([0, 2, 1, 3], 4)"
  by code_simp

lemma unit4_improve_zero:
  "improveTour unit4 (allNeighbors unit4) [] [0, 1, 2, 3] = Some (Inr [0, 1, 2, 3])"
  by code_simp

lemma unit4_improve_other:
  "improveTour unit4 (allNeighbors unit4) [] [0, 2, 1, 3] = Some (Inr [0, 2, 1, 3])"
  by code_simp

lemma unit4_length: "tourLength unit4 [0, 1, 2, 3] = 4" "tourLength unit4 [0, 2, 1, 3] = 4"
  by code_simp+

lemma unit4_edges:
  "tourContainsEdge unit4 [0, 1, 2, 3] 0 1" "\<not> tourContainsEdge unit4 [0, 2, 1, 3] 0 1"
  by code_simp+

text \<open>
  Claim C4 does not hold: the source draws from a fresh \<open>std::random_device\<close> at every
  choice, and nothing in it takes a seed.  Two runs on the same problem (four vertices at
  distance one), the same candidate edges and the same arguments, whose devices differ in
  the second draw, return different tours: \<open>{0, 1}\<close> is an edge of the first and not of
  the second.
\<close>

theorem findBestTour_draws_counterexample:
  "findBestTour unit4 (allNeighbors unit4) [] device_zero (2 ^ 64 - 1) 1 0 0 =
     Some (Inr [0, 1, 2, 3]) \<and>
   findBestTour unit4 (allNeighbors unit4) [] device_other (2 ^ 64 - 1) 1 0 0 =
     Some (Inr [0, 2, 1, 3]) \<and>
   tourContainsEdge unit4 [0, 1, 2, 3] 0 1 \<and> \<not> tourContainsEdge unit4 [0, 2, 1, 3] 0 1"
  by (simp add: findBestTour_def findBestTour_state_def trial_loop.simps unit4_generate_zero
        unit4_generate_other unit4_improve_zero unit4_improve_other unit4_length unit4_edges
        below_threshold_def del: One_nat_def)


section \<open>findBestTour: the early stop\<close>

lemma below_threshold_zero:
  "below_threshold len 0 optimumTourLength \<longleftrightarrow> len < optimumTourLength"
  by (simp add: below_threshold_def)

lemma trial_loop_early_stop:
  "acceptableError = 0 \<Longrightarrow>
   trial_loop problem candidateEdges device numberOfTrials optimumTourLength acceptableError st
     = Some (Inr st') \<Longrightarrow>
   trialCount st' \<le> numberOfTrials \<Longrightarrow>
   tourLength problem (currentBestTour st') < optimumTourLength"
proof (induction problem candidateEdges device numberOfTrials optimumTourLength acceptableError st
    rule: trial_loop.induct)
  case (1 problem candidateEdges device numberOfTrials optimumTourLength acceptableError st)
  note run = "1.prems"(2) and early = "1.prems"(3) and zero = "1.prems"(1)
  show ?case
  proof (cases "trialCount st < numberOfTrials")
    case False
    then have "st' = st\<lparr> trialCount := trialCount st + 1 \<rparr>"
      using run by (subst (asm) trial_loop.simps) simp
    then show ?thesis using False early by simp
  next
    case True
    from run True obtain startTour n' improved where
      gen: "generateRandomTour problem candidateEdges (currentBestTour st) device (drawn st)
              = Inr (startTour, n')"
      and imp: "improveTour problem candidateEdges (currentBestTour st) startTour
              = Some (Inr improved)"
      by (subst (asm) trial_loop.simps) (auto split: sum.splits option.splits prod.splits)
    define st1 where "st1 =
      (if tourLength problem improved < currentBestLength st
       then \<lparr> currentBestTour = improved, currentBestLength = tourLength problem improved,
              trialCount = trialCount st + 1, drawn = n' \<rparr>
       else \<lparr> currentBestTour = currentBestTour st, currentBestLength = currentBestLength st,
              trialCount = trialCount st + 1, drawn = n' \<rparr>)"
    have unfold: "trial_loop problem candidateEdges device numberOfTrials optimumTourLength
        acceptableError st =
      (if below_threshold (tourLength problem (currentBestTour st1)) acceptableError
            optimumTourLength
       then Some (Inr st1)
       else trial_loop problem candidateEdges device numberOfTrials optimumTourLength
              acceptableError st1)"
      using True gen imp by (subst trial_loop.simps) (simp add: st1_def Let_def)
    show ?thesis
    proof (cases "below_threshold (tourLength problem (currentBestTour st1)) acceptableError
        optimumTourLength")
      case True
      then have "st' = st1" using run unfold by simp
      then show ?thesis using True zero by (simp add: below_threshold_zero)
    next
      case False
      then have "trial_loop problem candidateEdges device numberOfTrials optimumTourLength
          acceptableError st1 = Some (Inr st')"
        using run unfold by simp
      from "1.IH" [OF True gen refl imp refl st1_def False zero this early]
      show ?thesis .
    qed
  qed
qed

text \<open>
  Claim C3, amended.  With \<open>acceptableError = 0\<close>, \<open>findBestTour\<close> leaves the trial loop
  before all trials are done (the counter is at most \<open>numberOfTrials\<close> afterwards) only
  when the length of the best tour is strictly below \<open>optimumTourLength\<close>.  A best tour
  of exactly that length does not end the loop.
\<close>

theorem findBestTour_early_stop:
  assumes "acceptableError = 0"
    and "findBestTour_state problem candidateEdges bestTour device distanceMax numberOfTrials
           optimumTourLength acceptableError = Some (Inr st)"
    and "trialCount st \<le> numberOfTrials"
  shows "tourLength problem (currentBestTour st) < optimumTourLength"
  using assms trial_loop_early_stop [of acceptableError problem candidateEdges device
      numberOfTrials optimumTourLength _ st]
  by (auto simp: findBestTour_state_def split: if_splits)

lemma unit3_generate_first:
  "generateRandomTour unit3 (allNeighbors unit3) [] device_zero 0 = Inr ([0, 1, 2], 3)"
  by code_simp

lemma unit3_generate_second:
  "generateRandomTour unit3 (allNeighbors unit3) [0, 1, 2] device_zero 3 = Inr ([0, 1, 2], 6)"
  by code_simp

lemma unit3_improve_first:
  "improveTour unit3 (allNeighbors unit3) [] [0, 1, 2] = Some (Inr [0, 1, 2])"
  by code_simp

lemma unit3_improve_second:
  "improveTour unit3 (allNeighbors unit3) [0, 1, 2] [0, 1, 2] = Some (Inr [0, 1, 2])"
  by code_simp

lemma unit3_length: "tourLength unit3 [0, 1, 2] = 3"
  by code_simp

text \<open>
  Claim C3 does not hold: three vertices at distance one, optimum 3, two trials.  The
  first trial yields a tour of length 3, and the second trial is run all the same: the
  loop is left by its test, with the counter at 3 and six random draws made.
\<close>

theorem findBestTour_optimum_counterexample:
  "generateRandomTour unit3 (allNeighbors unit3) [] device_zero 0 = Inr ([0, 1, 2], 3) \<and>
   improveTour unit3 (allNeighbors unit3) [] [0, 1, 2] = Some (Inr [0, 1, 2]) \<and>
   tourLength unit3 [0, 1, 2] = 3 \<and>
   findBestTour_state unit3 (allNeighbors unit3) [] device_zero (2 ^ 64 - 1) 2 3 0 =
     Some (Inr \<lparr> currentBestTour = [0, 1, 2], currentBestLength = 3, trialCount = 3,
                 drawn = 6 \<rparr>)"
  by (simp add: findBestTour_state_def trial_loop.simps unit3_generate_first
        unit3_generate_second unit3_improve_first unit3_improve_second unit3_length
        below_threshold_def del: One_nat_def)

theorem findBestTour_early_stop_witness:
  "(0 :: real) = 0 \<and>
   findBestTour_state unit3 (allNeighbors unit3) [] device_zero (2 ^ 64 - 1) 2 4 0 =
     Some (Inr \<lparr> currentBestTour = [0, 1, 2], currentBestLength = 3, trialCount = 1,
                 drawn = 3 \<rparr>) \<and>
   (1 :: nat) \<le> 2 \<and> tourLength unit3 [0, 1, 2] < 4"
proof -
  have run: "findBestTour_state unit3 (allNeighbors unit3) [] device_zero (2 ^ 64 - 1) 2 4 0 =
     Some (Inr \<lparr> currentBestTour = [0, 1, 2], currentBestLength = 3, trialCount = 1,
                 drawn = 3 \<rparr>)"
    by (simp add: findBestTour_state_def trial_loop.simps unit3_generate_first
          unit3_improve_first unit3_length below_threshold_def del: One_nat_def)
  from findBestTour_early_stop [OF refl run] run show ?thesis by simp
qed

section \<open>improveTour: the returned tour is not longer\<close>










section \<open>The list model keeps the contract of the exchange\<close>















section \<open>improveTour: termination\<close>






lemma walk_edges_simps [simp]:
  "walk_edges [] = []"
  "walk_edges [a] = []"
  "walk_edges (a # b # w) = undirected (a, b) # walk_edges (b # w)"
  by (simp_all add: walk_edges_def)



























end
